theory Spec2Isabelle
  imports Complex_Main
begin

section \<open>Shared wire types (shared/ws.types.ts)\<close>

text \<open>
  The declared union is \<open>"insert" | "delete"\<close>; operations arrive as parsed JSON, and
  the engine has a fall-through branch for any other tag, which \<open>Unknown\<close> stands for.
\<close>

datatype OperationType = Insert | Delete | Unknown

text \<open>
  A JavaScript \<open>number\<close> that a client sends is modelled as a rational: fractions
  are there and arithmetic is exact; \<open>NaN\<close>, the infinities and the rounding of
  doubles are not modelled. On whole numbers within the length of a string the doubles
  are exact as well. The counters the server keeps itself (\<open>version\<close>, the clock,
  the operations since the last save) start as integers and move by whole steps, and
  are integers here.
\<close>

type_synonym number = rat

text \<open>
  The optional fields \<open>text?\<close> and \<open>length?\<close> are options. The fields \<open>type\<close>,
  \<open>text\<close> and \<open>length\<close> are named \<open>opType\<close>, \<open>opText\<close> and \<open>opLength\<close>.
\<close>

record Operation =
  opId :: string
  docId :: string
  userId :: string
  baseVersion :: number
  opType :: OperationType
  position :: number
  opText :: "string option"
  opLength :: "number option"

section \<open>JavaScript string slicing\<close>

text \<open>
  \<open>String.prototype.slice\<close>: each argument is first truncated towards zero
  (\<open>ToIntegerOrInfinity\<close>); a negative index then counts from the end, and every index
  is clamped into \<open>[0, length]\<close>; an empty range gives the empty string. Strings are
  lists of code units.
\<close>

definition toInteger :: "number \<Rightarrow> int" where
  "toInteger x = (if 0 \<le> x then \<lfloor>x\<rfloor> else \<lceil>x\<rceil>)"

definition clampIndex :: "nat \<Rightarrow> number \<Rightarrow> nat" where
  "clampIndex n i =
     (let k = toInteger i
      in if k < 0 then nat (max (int n + k) 0) else min (nat k) n)"

definition slice :: "string \<Rightarrow> number \<Rightarrow> number \<Rightarrow> string" where
  "slice s a b =
     (let from = clampIndex (length s) a; to = clampIndex (length s) b
      in take (to - from) (drop from s))"

definition sliceFrom :: "string \<Rightarrow> number \<Rightarrow> string" where
  "sliceFrom s a = drop (clampIndex (length s) a) s"

section \<open>The OT engine (ot/engine.ts)\<close>

text \<open>\<open>op.length || 0\<close>: a missing length counts as 0.\<close>

definition lengthOr0 :: "Operation \<Rightarrow> number" where
  "lengthOr0 op = (case opLength op of None \<Rightarrow> 0 | Some n \<Rightarrow> n)"

text \<open>\<open>otherOp.text?.length || 0\<close>.\<close>

definition insertedLength :: "Operation \<Rightarrow> number" where
  "insertedLength op = (case opText op of None \<Rightarrow> 0 | Some t \<Rightarrow> of_nat (length t))"

text \<open>\<open>op.text || ''\<close>.\<close>

definition textOrEmpty :: "Operation \<Rightarrow> string" where
  "textOrEmpty op = (case opText op of None \<Rightarrow> [] | Some t \<Rightarrow> t)"

text \<open>
  \<open>OTEngine.transform\<close>. \<open>shifted\<close> is the copy of \<open>op\<close> after the position
  adjustment of case A or B; case C then works on it while reading \<open>op\<close> itself.
\<close>

definition transform :: "Operation \<Rightarrow> Operation \<Rightarrow> Operation" where
  "transform op otherOp =
     (case opType otherOp of
        Insert \<Rightarrow>
          (if position otherOp \<le> position op
           then op\<lparr>position := position op + insertedLength otherOp\<rparr>
           else op)
      | Delete \<Rightarrow>
          (let deleteStart = position otherOp;
               deleteEnd = position otherOp + lengthOr0 otherOp;
               shifted =
                 (if deleteEnd \<le> position op
                  then op\<lparr>position := position op - lengthOr0 otherOp\<rparr>
                  else if deleteStart < position op \<and> deleteEnd > position op
                  then op\<lparr>position := deleteStart\<rparr>
                  else op)
           in if opType op = Delete
              then
                (let ourDeleteEnd = position op + lengthOr0 op
                 in if deleteStart \<le> position op \<and> deleteEnd \<ge> ourDeleteEnd
                    then shifted\<lparr>opLength := Some 0\<rparr>
                    else if deleteStart < ourDeleteEnd \<and> deleteEnd > position op
                    then
                      (let overlapStart = max deleteStart (position op);
                           overlapEnd = min deleteEnd ourDeleteEnd;
                           overlapLength = overlapEnd - overlapStart;
                           shortened =
                             shifted\<lparr>opLength := Some (lengthOr0 shifted - overlapLength)\<rparr>
                       in if deleteStart \<le> position op
                          then shortened\<lparr>position := deleteStart\<rparr>
                          else shortened)
                    else shifted)
              else shifted)
      | Unknown \<Rightarrow> op)"

text \<open>
  \<open>OTEngine.apply\<close>, named \<open>applyOp\<close> here. It has no failing branch: every
  path returns a string.
\<close>

definition applyOp :: "string \<Rightarrow> Operation \<Rightarrow> string" where
  "applyOp content op =
     (case opType op of
        Insert \<Rightarrow>
          (let before = slice content 0 (position op);
               after = sliceFrom content (position op)
           in before @ textOrEmpty op @ after)
      | Delete \<Rightarrow>
          (let before = slice content 0 (position op);
               after = sliceFrom content (position op + lengthOr0 op)
           in before @ after)
      | Unknown \<Rightarrow> content)"

text \<open>\<open>OTEngine.validate\<close>.\<close>

definition validate :: "string \<Rightarrow> Operation \<Rightarrow> bool" where
  "validate content op =
     (if position op < 0 \<or> position op > of_nat (length content) then False
      else case opType op of
        Insert \<Rightarrow> (case opText op of None \<Rightarrow> False | Some t \<Rightarrow> t \<noteq> [] \<and> length t > 0)
      | Delete \<Rightarrow>
          (let len = lengthOr0 op
           in len > 0 \<and> position op + len \<le> of_nat (length content))
      | Unknown \<Rightarrow> False)"

section \<open>Document manager (services/documentManager.ts)\<close>

record DocumentState =
  content :: string
  version :: int
  pendingOps :: "Operation list"
  lastSaveTime :: int
  opsSinceLastSave :: int

text \<open>
  Modelled from the spec: the durable document store. \<open>DocumentModel\<close> is the
  Mongoose model of the schema \<open>{content, version, updatedAt}\<close> (models/document);
  what \<open>findById\<close> and \<open>findByIdAndUpdate\<close> do is library code outside the
  sources. The store is a key-to-record store: \<open>findById\<close> gives the record or
  nothing, and \<open>findByIdAndUpdate\<close> with \<open>upsert: false\<close> overwrites an existing
  record. The \<open>updatedAt\<close> stamp is not kept.
\<close>

record StoredDocument =
  storedContent :: string
  storedVersion :: int

text \<open>
  The manager's in-memory registry \<open>documents\<close> together with the store it talks to.
\<close>

record DocumentManager =
  documents :: "string \<rightharpoonup> DocumentState"
  documentModel :: "string \<rightharpoonup> StoredDocument"

text \<open>
  What a call reads from outside: the clock (\<open>Date.now()\<close>, read once per call) and
  whether the awaited store calls resolve (\<open>None\<close>) or reject with an error carrying
  the given message. Each call runs to its end before the next one starts: the
  interleaving of calls at their \<open>await\<close> points is not modelled.
\<close>

record Env =
  now :: int
  storeError :: "string option"

text \<open>A thrown JavaScript \<open>Error\<close> with its message.\<close>

datatype Error = Error (message: string)

definition SAVE_INTERVAL :: int where
  "SAVE_INTERVAL = 2000"

definition SAVE_OP_THRESHOLD :: int where
  "SAVE_OP_THRESHOLD = 20"

definition loadDocument ::
  "Env \<Rightarrow> DocumentManager \<Rightarrow> string \<Rightarrow> DocumentManager \<times> (Error + DocumentState)" where
  "loadDocument env mgr d =
     (case documents mgr d of
        Some state \<Rightarrow> (mgr, Inr state)
      | None \<Rightarrow>
          (case storeError env of
             Some msg \<Rightarrow> (mgr, Inl (Error msg))
           | None \<Rightarrow>
               (case documentModel mgr d of
                  None \<Rightarrow> (mgr, Inl (Error ''Document not found''))
                | Some doc \<Rightarrow>
                    (let state = \<lparr>content = storedContent doc, version = storedVersion doc,
                                  pendingOps = [], lastSaveTime = now env,
                                  opsSinceLastSave = 0\<rparr>
                     in (mgr\<lparr>documents := (documents mgr)(d \<mapsto> state)\<rparr>, Inr state)))))"

text \<open>\<open>pendingOps.slice(-10)\<close>: the last ten entries, or all of them if there are fewer.\<close>

definition lastTen :: "'a list \<Rightarrow> 'a list" where
  "lastTen xs = drop (length xs - 10) xs"

definition persistDocument ::
  "Env \<Rightarrow> DocumentManager \<Rightarrow> string \<Rightarrow> DocumentManager \<times> Error option" where
  "persistDocument env mgr d =
     (case documents mgr d of
        None \<Rightarrow> (mgr, None)
      | Some state \<Rightarrow>
          (case storeError env of
             Some msg \<Rightarrow> (mgr, Some (Error msg))
           | None \<Rightarrow>
               (let stored =
                      (case documentModel mgr d of
                         None \<Rightarrow> documentModel mgr
                       | Some doc \<Rightarrow>
                           (documentModel mgr)
                             (d \<mapsto> \<lparr>storedContent = content state,
                                    storedVersion = version state\<rparr>));
                    state' = state\<lparr>lastSaveTime := now env, opsSinceLastSave := 0,
                                   pendingOps := lastTen (pendingOps state)\<rparr>
                in (\<lparr>documents = (documents mgr)(d \<mapsto> state'), documentModel = stored\<rparr>,
                    None))))"

text \<open>
  Lines 50 to 61 of \<open>applyOperation\<close>: when the operation's base version is behind, it
  is transformed, in order, against the retained operations whose own \<open>baseVersion\<close>
  is at least the operation's.
\<close>

definition transformAgainstPending :: "DocumentState \<Rightarrow> Operation \<Rightarrow> Operation" where
  "transformAgainstPending state op =
     (if baseVersion op < of_int (version state)
      then foldl transform op
             (filter (\<lambda>pendingOp. baseVersion pendingOp \<ge> baseVersion op) (pendingOps state))
      else op)"

record ApplyResult =
  newVersion :: int
  transformedOp :: Operation

text \<open>
  \<open>applyOperation\<close>. The state object is mutated in place, so the registry entry
  changes with it; a rejected write-back leaves the mutation behind and the call as a
  whole rejects.
\<close>

definition applyOperation ::
  "Env \<Rightarrow> DocumentManager \<Rightarrow> string \<Rightarrow> Operation \<Rightarrow> DocumentManager \<times> (Error + ApplyResult)" where
  "applyOperation env mgr d op =
     (case loadDocument env mgr d of
        (mgr1, Inl e) \<Rightarrow> (mgr1, Inl e)
      | (mgr1, Inr state) \<Rightarrow>
          if \<not> validate (content state) op then (mgr1, Inl (Error ''Invalid operation''))
          else
            (let transformed = transformAgainstPending state op;
                 state' = state\<lparr>content := applyOp (content state) transformed,
                                version := version state + 1,
                                pendingOps := pendingOps state @ [transformed],
                                opsSinceLastSave := opsSinceLastSave state + 1\<rparr>;
                 mgr2 = mgr1\<lparr>documents := (documents mgr1)(d \<mapsto> state')\<rparr>;
                 timeSinceLastSave = now env - lastSaveTime state';
                 result = \<lparr>newVersion = version state', transformedOp = transformed\<rparr>
             in if timeSinceLastSave \<ge> SAVE_INTERVAL \<or> opsSinceLastSave state' \<ge> SAVE_OP_THRESHOLD
                then (case persistDocument env mgr2 d of
                        (mgr3, Some e) \<Rightarrow> (mgr3, Inl e)
                      | (mgr3, None) \<Rightarrow> (mgr3, Inr result))
                else (mgr2, Inr result)))"

definition getDocument ::
  "Env \<Rightarrow> DocumentManager \<Rightarrow> string \<Rightarrow> DocumentManager \<times> (Error + string \<times> int)" where
  "getDocument env mgr d =
     (case loadDocument env mgr d of
        (mgr1, Inl e) \<Rightarrow> (mgr1, Inl e)
      | (mgr1, Inr state) \<Rightarrow> (mgr1, Inr (content state, version state)))"

text \<open>
  The write-back is awaited, and \<open>server.ts\<close> does not await \<open>handleMessage\<close>: while
  the store call of one \<open>applyOperation\<close> is pending, other calls run and may change
  the state object. \<open>persistDocumentWith\<close> and \<open>applyOperationWith\<close> take this as
  two parameters: \<open>meanwhile\<close> maps the state object as it is when the store call is
  issued to the state object as it is when that call settles, and \<open>later\<close> is the
  clock at that moment. The record handed to the store is built before the wait; the
  fields assigned after it, and the version that \<open>applyOperation\<close> returns, are read
  from the state object as it then is. (The registry entry of a document is never
  replaced or removed, so the object is the one the registry holds.)
  \<open>persistDocument\<close> and \<open>applyOperation\<close> above are the case in which nothing else
  runs during the wait and the clock has not moved.
\<close>

definition persistDocumentWith ::
  "(DocumentState \<Rightarrow> DocumentState) \<Rightarrow> int \<Rightarrow> Env \<Rightarrow> DocumentManager \<Rightarrow> string
     \<Rightarrow> DocumentManager \<times> Error option" where
  "persistDocumentWith meanwhile later env mgr d =
     (case documents mgr d of
        None \<Rightarrow> (mgr, None)
      | Some state \<Rightarrow>
          (let current = meanwhile state
           in case storeError env of
                Some msg \<Rightarrow> (mgr\<lparr>documents := (documents mgr)(d \<mapsto> current)\<rparr>, Some (Error msg))
              | None \<Rightarrow>
                  (let stored =
                         (case documentModel mgr d of
                            None \<Rightarrow> documentModel mgr
                          | Some doc \<Rightarrow>
                              (documentModel mgr)
                                (d \<mapsto> \<lparr>storedContent = content state,
                                       storedVersion = version state\<rparr>));
                       state' = current\<lparr>lastSaveTime := later, opsSinceLastSave := 0,
                                        pendingOps := lastTen (pendingOps current)\<rparr>
                   in (\<lparr>documents = (documents mgr)(d \<mapsto> state'), documentModel = stored\<rparr>,
                       None))))"

definition applyOperationWith ::
  "(DocumentState \<Rightarrow> DocumentState) \<Rightarrow> int \<Rightarrow> Env \<Rightarrow> DocumentManager \<Rightarrow> string
     \<Rightarrow> Operation \<Rightarrow> DocumentManager \<times> (Error + ApplyResult)" where
  "applyOperationWith meanwhile later env mgr d op =
     (case loadDocument env mgr d of
        (mgr1, Inl e) \<Rightarrow> (mgr1, Inl e)
      | (mgr1, Inr state) \<Rightarrow>
          if \<not> validate (content state) op then (mgr1, Inl (Error ''Invalid operation''))
          else
            (let transformed = transformAgainstPending state op;
                 state' = state\<lparr>content := applyOp (content state) transformed,
                                version := version state + 1,
                                pendingOps := pendingOps state @ [transformed],
                                opsSinceLastSave := opsSinceLastSave state + 1\<rparr>;
                 mgr2 = mgr1\<lparr>documents := (documents mgr1)(d \<mapsto> state')\<rparr>;
                 timeSinceLastSave = now env - lastSaveTime state'
             in if timeSinceLastSave \<ge> SAVE_INTERVAL \<or> opsSinceLastSave state' \<ge> SAVE_OP_THRESHOLD
                then (case persistDocumentWith meanwhile later env mgr2 d of
                        (mgr3, Some e) \<Rightarrow> (mgr3, Inl e)
                      | (mgr3, None) \<Rightarrow>
                          (mgr3,
                           Inr \<lparr>newVersion =
                                  (case documents mgr3 d of
                                     None \<Rightarrow> version state'
                                   | Some current \<Rightarrow> version current),
                                transformedOp = transformed\<rparr>))
                else (mgr2, Inr \<lparr>newVersion = version state', transformedOp = transformed\<rparr>)))"

section \<open>Connection manager (services/connectionManager.ts)\<close>

text \<open>
  The \<open>Cursor\<close> and \<open>Client\<close> fields \<open>userId\<close>, \<open>position\<close> and \<open>docId\<close> carry a
  prefix, the plain names being those of \<open>Operation\<close>.
\<close>

record Cursor =
  cursorUserId :: string
  cursorPosition :: number

datatype WSMessage =
    JOIN_DOCUMENT string
  | APPLY_OP Operation
  | ACK_OP string int
  | BROADCAST_OP Operation
  | CURSOR_UPDATE number
  | USER_JOINED string
  | USER_LEFT string
  | SYNC_STATE string int "string \<rightharpoonup> Cursor"
  | ERROR string

text \<open>
  The top-level \<open>userId\<close> field of a message, for the variants that have one.
\<close>

fun messageUserId :: "WSMessage \<Rightarrow> string option" where
  "messageUserId (USER_JOINED u) = Some u"
| "messageUserId (USER_LEFT u) = Some u"
| "messageUserId _ = None"

datatype ReadyState = CONNECTING | OPEN | CLOSING | CLOSED

record Client =
  readyState :: ReadyState
  clientUserId :: string
  clientDocId :: "string option"

text \<open>
  \<open>clients\<close> is a \<open>Map\<close>, iterated in insertion order: an association list.
  \<open>presence\<close> stands for the Redis hash per document kept by the presence manager
  (services/presenceManager.ts); its expiry and a failing Redis are not modelled.
\<close>

record ConnectionManager =
  clients :: "(string \<times> Client) list"
  documentManager :: DocumentManager
  presence :: "string \<Rightarrow> (string \<rightharpoonup> Cursor)"

text \<open>The frames handed to \<open>ws.send\<close>, in order, each with the receiving client's id.\<close>

type_synonym Outbox = "(string \<times> WSMessage) list"

text \<open>\<open>!client.docId\<close> holds for \<open>null\<close> and for the empty string.\<close>

definition joinedDoc :: "Client \<Rightarrow> string option" where
  "joinedDoc client =
     (case clientDocId client of
        None \<Rightarrow> None
      | Some d \<Rightarrow> if d = [] then None else Some d)"

definition sendToClient :: "ConnectionManager \<Rightarrow> string \<Rightarrow> WSMessage \<Rightarrow> Outbox" where
  "sendToClient cm clientId msg =
     (case map_of (clients cm) clientId of
        None \<Rightarrow> []
      | Some client \<Rightarrow> if readyState client = OPEN then [(clientId, msg)] else [])"

definition broadcastToDocument ::
  "ConnectionManager \<Rightarrow> string \<Rightarrow> WSMessage \<Rightarrow> string option \<Rightarrow> Outbox" where
  "broadcastToDocument cm d msg excludeClientId =
     map (\<lambda>(clientId, client). (clientId, msg))
       (filter (\<lambda>(clientId, client).
                  clientDocId client = Some d \<and> Some clientId \<noteq> excludeClientId
                  \<and> readyState client = OPEN)
          (clients cm))"

text \<open>
  Each handler returns the manager afterwards, the frames sent, and the error thrown, if
  any. \<open>handleMessage\<close> catches that error and reports it to the sender alone.
\<close>

definition handleJoinDocument ::
  "Env \<Rightarrow> ConnectionManager \<Rightarrow> string \<Rightarrow> string \<Rightarrow> ConnectionManager \<times> Outbox \<times> Error option" where
  "handleJoinDocument env cm clientId d =
     (case map_of (clients cm) clientId of
        None \<Rightarrow> (cm, [], None)
      | Some client \<Rightarrow>
          (let u = clientUserId client;
               (cm1, out1) =
                 (case joinedDoc client of
                    None \<Rightarrow> (cm, [])
                  | Some old \<Rightarrow>
                      (cm\<lparr>presence := (presence cm)(old := (presence cm old)(u := None))\<rparr>,
                       broadcastToDocument cm old (USER_LEFT u) (Some clientId)));
               cm2 = cm1\<lparr>clients :=
                       map (\<lambda>(k, c). if k = clientId then (k, c\<lparr>clientDocId := Some d\<rparr>) else (k, c))
                         (clients cm1)\<rparr>;
               cm3 = cm2\<lparr>presence :=
                       (presence cm2)
                         (d := (presence cm2 d)(u \<mapsto> \<lparr>cursorUserId = u, cursorPosition = 0\<rparr>))\<rparr>
           in case getDocument env (documentManager cm3) d of
                (mgr, Inl e) \<Rightarrow> (cm3\<lparr>documentManager := mgr\<rparr>, out1, Some e)
              | (mgr, Inr (c, v)) \<Rightarrow>
                  (let cm4 = cm3\<lparr>documentManager := mgr\<rparr>
                   in (cm4,
                       out1 @ sendToClient cm4 clientId (SYNC_STATE c v (presence cm4 d))
                         @ broadcastToDocument cm4 d (USER_JOINED u) (Some clientId),
                       None))))"

definition handleApplyOp ::
  "Env \<Rightarrow> ConnectionManager \<Rightarrow> string \<Rightarrow> Operation \<Rightarrow> ConnectionManager \<times> Outbox \<times> Error option" where
  "handleApplyOp env cm clientId op =
     (case map_of (clients cm) clientId of
        None \<Rightarrow> (cm, [], None)
      | Some client \<Rightarrow>
          (case joinedDoc client of
             None \<Rightarrow> (cm, [], None)
           | Some d \<Rightarrow>
               (case applyOperation env (documentManager cm) d op of
                  (mgr, Inl e) \<Rightarrow> (cm\<lparr>documentManager := mgr\<rparr>, [], Some e)
                | (mgr, Inr result) \<Rightarrow>
                    (let cm1 = cm\<lparr>documentManager := mgr\<rparr>
                     in (cm1,
                         sendToClient cm1 clientId (ACK_OP (opId op) (newVersion result))
                           @ broadcastToDocument cm1 d (BROADCAST_OP (transformedOp result))
                               (Some clientId),
                         None)))))"

definition handleCursorUpdate ::
  "ConnectionManager \<Rightarrow> string \<Rightarrow> number \<Rightarrow> ConnectionManager \<times> Outbox \<times> Error option" where
  "handleCursorUpdate cm clientId pos =
     (case map_of (clients cm) clientId of
        None \<Rightarrow> (cm, [], None)
      | Some client \<Rightarrow>
          (case joinedDoc client of
             None \<Rightarrow> (cm, [], None)
           | Some d \<Rightarrow>
               (let u = clientUserId client;
                    cm1 = cm\<lparr>presence :=
                            (presence cm)
                              (d := (presence cm d)
                                 (u \<mapsto> \<lparr>cursorUserId = u, cursorPosition = pos\<rparr>))\<rparr>
                in (cm1, broadcastToDocument cm1 d (CURSOR_UPDATE pos) (Some clientId), None))))"

definition handleMessage ::
  "Env \<Rightarrow> ConnectionManager \<Rightarrow> string \<Rightarrow> WSMessage \<Rightarrow> ConnectionManager \<times> Outbox" where
  "handleMessage env cm clientId msg =
     (case map_of (clients cm) clientId of
        None \<Rightarrow> (cm, [])
      | Some client \<Rightarrow>
          (let (cm1, out, thrown) =
                 (case msg of
                    JOIN_DOCUMENT d \<Rightarrow> handleJoinDocument env cm clientId d
                  | APPLY_OP op \<Rightarrow> handleApplyOp env cm clientId op
                  | CURSOR_UPDATE pos \<Rightarrow> handleCursorUpdate cm clientId pos
                  | _ \<Rightarrow> (cm, [], None))
           in case thrown of
                None \<Rightarrow> (cm1, out)
              | Some e \<Rightarrow> (cm1, out @ sendToClient cm1 clientId (ERROR (message e)))))"

section \<open>Example inputs\<close>

text \<open>
  Concrete operations, document states and sessions on which the functions above are
  evaluated below: a document \<open>doc1\<close> with two open sessions joined to it, \<open>c1\<close> of
  user \<open>alice\<close> and \<open>c2\<close> of user \<open>bob\<close>. An example state is the one right
  after a write-back at clock 0: nothing is unsaved and the store holds its content and
  version. \<open>storeUp\<close> is that same moment with the store answering;
  \<open>storeUpLater\<close> and \<open>storeDown\<close> are five seconds later, with the store answering
  and with the store rejecting every call.
\<close>

definition insertOp :: "string \<Rightarrow> string \<Rightarrow> number \<Rightarrow> number \<Rightarrow> string \<Rightarrow> Operation" where
  "insertOp i u v p t =
     \<lparr>opId = i, docId = ''doc1'', userId = u, baseVersion = v, opType = Insert,
      position = p, opText = Some t, opLength = None\<rparr>"

definition deleteOp :: "string \<Rightarrow> string \<Rightarrow> number \<Rightarrow> number \<Rightarrow> number \<Rightarrow> Operation" where
  "deleteOp i u v p l =
     \<lparr>opId = i, docId = ''doc1'', userId = u, baseVersion = v, opType = Delete,
      position = p, opText = None, opLength = Some l\<rparr>"

definition exampleState :: "string \<Rightarrow> int \<Rightarrow> Operation list \<Rightarrow> DocumentState" where
  "exampleState c v ops =
     \<lparr>content = c, version = v, pendingOps = ops, lastSaveTime = 0, opsSinceLastSave = 0\<rparr>"

definition exampleDocuments :: "DocumentState \<Rightarrow> DocumentManager" where
  "exampleDocuments state =
     \<lparr>documents = [''doc1'' \<mapsto> state],
      documentModel =
        [''doc1'' \<mapsto> \<lparr>storedContent = content state, storedVersion = version state\<rparr>]\<rparr>"

definition exampleServer :: "DocumentState \<Rightarrow> ConnectionManager" where
  "exampleServer state =
     \<lparr>clients =
        [(''c1'', \<lparr>readyState = OPEN, clientUserId = ''alice'', clientDocId = Some ''doc1''\<rparr>),
         (''c2'', \<lparr>readyState = OPEN, clientUserId = ''bob'', clientDocId = Some ''doc1''\<rparr>)],
      documentManager = exampleDocuments state,
      presence = (\<lambda>d. Map.empty)\<rparr>"

definition storeUp :: Env where
  "storeUp = \<lparr>now = 0, storeError = None\<rparr>"

definition storeUpLater :: Env where
  "storeUpLater = \<lparr>now = 5000, storeError = None\<rparr>"

definition storeDown :: Env where
  "storeDown = \<lparr>now = 5000, storeError = Some ''store unavailable''\<rparr>"

section \<open>Unfolding rules\<close>

lemma floor_divide_numeral_rat:
  "\<lfloor>numeral a / numeral b :: rat\<rfloor> = numeral a div numeral b"
  using floor_divide_of_int_eq[of "numeral a" "numeral b", where ?'a = rat] by simp

lemma floor_one_divide_numeral_rat: "\<lfloor>1 / numeral b :: rat\<rfloor> = 1 div numeral b"
  using floor_divide_of_int_eq[of 1 "numeral b", where ?'a = rat] by simp

lemmas engine_defs = transform_def applyOp_def validate_def slice_def sliceFrom_def
  clampIndex_def toInteger_def lengthOr0_def insertedLength_def textOrEmpty_def Let_def
  floor_divide_numeral_rat floor_one_divide_numeral_rat

lemmas manager_defs = loadDocument_def persistDocument_def applyOperation_def
  transformAgainstPending_def lastTen_def SAVE_INTERVAL_def SAVE_OP_THRESHOLD_def
  getDocument_def persistDocumentWith_def applyOperationWith_def

lemmas server_defs = joinedDoc_def sendToClient_def broadcastToDocument_def
  handleApplyOp_def handleCursorUpdate_def handleMessage_def handleJoinDocument_def

lemmas example_defs = insertOp_def deleteOp_def exampleState_def exampleDocuments_def
  exampleServer_def storeUp_def storeUpLater_def storeDown_def

section \<open>The engine: what transform leaves alone\<close>

lemma transform_keeps:
  "opId (transform op otherOp) = opId op"
  "docId (transform op otherOp) = docId op"
  "userId (transform op otherOp) = userId op"
  "baseVersion (transform op otherOp) = baseVersion op"
  "opType (transform op otherOp) = opType op"
  "opText (transform op otherOp) = opText op"
  by (simp_all add: transform_def Let_def split: OperationType.split)

text \<open>
  C9. \<open>transform op otherOp\<close> differs from \<open>op\<close> at most in \<open>position\<close> and
  \<open>length\<close>: the identifiers, the user, the base version, the type and the text of the
  result are those of \<open>op\<close>, whatever the two operations are.
\<close>

theorem transform_frame:
  "opId (transform op otherOp) = opId op
   \<and> docId (transform op otherOp) = docId op
   \<and> userId (transform op otherOp) = userId op
   \<and> baseVersion (transform op otherOp) = baseVersion op
   \<and> opType (transform op otherOp) = opType op
   \<and> opText (transform op otherOp) = opText op"
  by (simp add: transform_def Let_def split: OperationType.split)

section \<open>The engine: applying past the end of the content\<close>

lemma toInteger_nonneg: "0 \<le> x \<Longrightarrow> toInteger x = \<lfloor>x\<rfloor>"
  by (simp add: toInteger_def)

lemma clampIndex_nonneg: "0 \<le> x \<Longrightarrow> clampIndex n x = min (nat \<lfloor>x\<rfloor>) n"
  by (simp add: clampIndex_def toInteger_def Let_def)

lemma clampIndex_past_end: "of_nat n \<le> x \<Longrightarrow> clampIndex n x = n"
proof -
  assume h: "of_nat n \<le> x"
  then have "0 \<le> x" by (meson of_nat_0_le_iff order_trans)
  moreover from h have "int n \<le> \<lfloor>x\<rfloor>" by (simp add: le_floor_iff)
  ultimately show ?thesis by (simp add: clampIndex_nonneg)
qed

lemma applyOp_insert:
  "opType op = Insert \<Longrightarrow> 0 \<le> position op \<Longrightarrow>
   applyOp s op = take (nat \<lfloor>position op\<rfloor>) s @ textOrEmpty op @ drop (nat \<lfloor>position op\<rfloor>) s"
  by (simp add: applyOp_def slice_def sliceFrom_def clampIndex_nonneg Let_def min_def)

lemma applyOp_delete:
  "opType op = Delete \<Longrightarrow> 0 \<le> position op \<Longrightarrow> 0 \<le> position op + lengthOr0 op \<Longrightarrow>
   applyOp s op = take (nat \<lfloor>position op\<rfloor>) s @ drop (nat \<lfloor>position op + lengthOr0 op\<rfloor>) s"
  by (simp add: applyOp_def slice_def sliceFrom_def clampIndex_nonneg Let_def min_def)

lemma toInteger_0: "toInteger 0 = 0"
  by (simp add: toInteger_def)

lemma applyOp_delete_zero: "opType op = Delete \<Longrightarrow> lengthOr0 op = 0 \<Longrightarrow> applyOp s op = s"
  by (simp add: applyOp_def slice_def sliceFrom_def clampIndex_def Let_def toInteger_0)

lemma applyOp_insert_past_end:
  assumes "opType op = Insert" "of_nat (length s) < position op"
  shows "applyOp s op = s @ textOrEmpty op"
  using assms by (simp add: applyOp_def slice_def sliceFrom_def clampIndex_past_end clampIndex_nonneg Let_def)

lemma applyOp_delete_past_end:
  assumes "opType op = Delete" "of_nat (length s) < position op"
    and "of_nat (length s) \<le> position op + lengthOr0 op"
  shows "applyOp s op = s"
  using assms by (simp add: applyOp_def slice_def sliceFrom_def clampIndex_past_end clampIndex_nonneg Let_def)

text \<open>
  C10, as the code has it. \<open>applyOp\<close> is a total function into strings: no input
  makes it fail. Past the end of the content, an insert appends its text (nothing, if
  the text is missing). A delete past the end returns the content unchanged when
  \<open>position + length\<close> is not below the content's length, which covers every missing or
  non-negative length. An operation of any other type returns the content unchanged.
\<close>

theorem applyOp_out_of_range:
  "(opType op = Insert \<and> of_nat (length s) < position op \<longrightarrow> applyOp s op = s @ textOrEmpty op)
   \<and> (opType op = Delete \<and> of_nat (length s) < position op
        \<and> of_nat (length s) \<le> position op + lengthOr0 op \<longrightarrow> applyOp s op = s)
   \<and> (opType op = Unknown \<longrightarrow> applyOp s op = s)"
  by (simp add: applyOp_insert_past_end applyOp_delete_past_end) (simp add: applyOp_def)

theorem applyOp_out_of_range_witness:
  "applyOp ''abc'' (insertOp ''1'' ''u'' 0 5 ''x'') = ''abcx''
   \<and> applyOp ''abc'' (deleteOp ''1'' ''u'' 0 5 2) = ''abc''
   \<and> applyOp ''abc'' ((deleteOp ''1'' ''u'' 0 1 1)\<lparr>opType := Unknown\<rparr>) = ''abc''"
  using applyOp_out_of_range [of "insertOp ''1'' ''u'' 0 5 ''x''" "''abc''"]
    applyOp_out_of_range [of "deleteOp ''1'' ''u'' 0 5 2" "''abc''"]
    applyOp_out_of_range [of "(deleteOp ''1'' ''u'' 0 1 1)\<lparr>opType := Unknown\<rparr>" "''abc''"]
  by (simp add: insertOp_def deleteOp_def textOrEmpty_def lengthOr0_def)

text \<open>
  A delete past the end whose length is negative enough copies a suffix of the content:
  \<open>"abc".slice(0, 4) + "abc".slice(4 + (-2))\<close> is \<open>"abcc"\<close>.
\<close>

theorem applyOp_delete_negative_length_counterexample:
  "of_nat (length ''abc'') < position (deleteOp ''1'' ''u'' 0 4 (- 2))
   \<and> applyOp ''abc'' (deleteOp ''1'' ''u'' 0 4 (- 2)) = ''abcc''
   \<and> applyOp ''abc'' (deleteOp ''1'' ''u'' 0 4 (- 2)) \<noteq> ''abc''"
  by (simp add: deleteOp_def engine_defs)

section \<open>The engine: convergence of concurrent operations\<close>

subsection \<open>Cutting a list at two or three points\<close>

lemma split3:
  assumes "p \<le> q" "q \<le> length (s::'a list)"
  obtains A B C where "s = A @ B @ C" "length A = p" "length B = q - p"
proof
  show "s = take p s @ take (q - p) (drop p s) @ drop q s"
    using assms by (metis append_take_drop_id drop_drop le_add_diff_inverse2)
  show "length (take p s) = p" using assms by simp
  show "length (take (q - p) (drop p s)) = q - p" using assms by simp
qed

lemma split4:
  assumes "p \<le> q" "q \<le> r" "r \<le> length (s::'a list)"
  obtains A B C D where "s = A @ B @ C @ D" "length A = p" "length B = q - p" "length C = r - q"
proof -
  from assms obtain A R where 1: "s = A @ R" "length A = p"
    by (metis append_take_drop_id length_take min.absorb2 order_trans)
  with assms have "q - p \<le> r - p" "r - p \<le> length R" by auto
  then obtain B C D where 2: "R = B @ C @ D" "length B = q - p" "length C = r - p - (q - p)"
    using split3 by blast
  with 1 assms show ?thesis using that[of A B C D] by simp
qed

subsection \<open>Insertions and deletions on lists, by offsets\<close>

lemma ins_ins:
  assumes "p \<le> q" "q \<le> length (s::'a list)"
  shows "take (q + length t) (take p s @ t @ drop p s) @ u @ drop (q + length t) (take p s @ t @ drop p s)
       = take p (take q s @ u @ drop q s) @ t @ drop p (take q s @ u @ drop q s)"
proof -
  from assms obtain A B C where s: "s = A @ B @ C" "length A = p" "length B = q - p"
    using split3[of p q s] by metis
  have q: "q = length A + length B" using s assms by simp
  show ?thesis unfolding q s(2)[symmetric] s(1) by simp
qed

lemma ins_del_before:
  assumes "p \<le> q" "q + l \<le> length (s::'a list)"
  shows "take (q + length t) (take p s @ t @ drop p s) @ drop (q + length t + l) (take p s @ t @ drop p s)
       = take p (take q s @ drop (q + l) s) @ t @ drop p (take q s @ drop (q + l) s)"
proof -
  from assms obtain A B C where s: "s = A @ B @ C" "length A = p" "length B = q - p"
    using split3[of p q s] by (metis add_leE)
  have q: "q = length A + length B" using s assms by simp
  show ?thesis unfolding q s(2)[symmetric] s(1) by simp
qed

lemma ins_del_after:
  assumes "q + l \<le> p" "p \<le> length (s::'a list)"
  shows "take q (take p s @ t @ drop p s) @ drop (q + l) (take p s @ t @ drop p s)
       = take (p - l) (take q s @ drop (q + l) s) @ t @ drop (p - l) (take q s @ drop (q + l) s)"
proof -
  from assms obtain A B C where s: "s = A @ B @ C" "length A = q" "length B = p - q"
    using split3[of q p s] by (metis add_leE)
  have p: "p = length A + length B" using s assms by simp
  have "l \<le> length B" using s assms by simp
  then show ?thesis unfolding p s(2)[symmetric] s(1) by simp
qed

lemma del_del_disjoint:
  assumes "q + m \<le> p" "p + l \<le> length (s::'a list)"
  shows "take q (take p s @ drop (p + l) s) @ drop (q + m) (take p s @ drop (p + l) s)
       = take (p - m) (take q s @ drop (q + m) s) @ drop (p - m + l) (take q s @ drop (q + m) s)"
proof -
  from assms obtain A B C D where s: "s = A @ B @ C @ D" "length A = q" "length B = m" "length C = p - (q + m)"
    using split4[of q "q + m" p s] by (metis add_diff_cancel_left' add_leE le_add1)
  have p: "p = length A + length B + length C" using s assms by simp
  show ?thesis unfolding p s(2,3)[symmetric] s(1) by simp
qed

lemma del_del_inside:
  assumes "q \<le> p" "p + l \<le> q + m" "q + m \<le> length (s::'a list)"
  shows "take q (take p s @ drop (p + l) s) @ drop (q + (m - l)) (take p s @ drop (p + l) s)
       = take q s @ drop (q + m) s"
proof -
  from assms obtain A B C D where s: "s = A @ B @ C @ D" "length A = q" "length B = p - q" "length C = p + l - p"
    using split4[of q p "p + l" s] by (metis le_add1 order_trans)
  have p: "p = length A + length B" and l: "l = length C" using s assms by simp_all
  have m: "length B + length C \<le> m" "q = length A" using assms s by simp_all
  from assms(3) m s(1) have "m - (length B + length C) \<le> length D" by simp
  then show ?thesis using m(1) unfolding p l m(2) s(1)
    by (simp add: add.commute)
qed

lemma del_del_partial:
  assumes "q \<le> p" "p \<le> q + m" "q + m \<le> p + l" "p + l \<le> length (s::'a list)"
  shows "take q (take p s @ drop (p + l) s) @ drop (q + (p - q)) (take p s @ drop (p + l) s)
       = take q (take q s @ drop (q + m) s) @ drop (q + (p + l - (q + m))) (take q s @ drop (q + m) s)"
proof -
  from assms obtain A B R where s: "s = A @ B @ R" "length A = q" "length B = p - q"
    using split3[of q p s] by (metis add_leE)
  have p: "p = length A + length B" using s assms by simp
  have q: "q = length A" using s by simp
  have "length B \<le> m" "m \<le> length B + l" "l \<le> length R" using assms s unfolding p q by simp_all
  then show ?thesis unfolding p q s(1)
    by (simp add: )
qed

subsection \<open>Valid operations as offsets\<close>

lemma nonneg_Ints_of_nat:
  fixes x :: rat
  assumes "x \<in> \<int>" "0 \<le> x"
  obtains n where "x = of_nat n"
proof -
  from assms(1) obtain k where k: "x = of_int k" by (rule Ints_cases)
  with assms(2) have "0 \<le> k" by simp
  then have "x = of_nat (nat k)" using k by simp
  then show ?thesis by (rule that)
qed

lemma validate_insert_bounds:
  assumes "validate s op" "opType op = Insert"
  shows "0 \<le> position op" "position op \<le> of_nat (length s)"
  using assms by (auto simp: validate_def Let_def split: if_splits)

lemma validate_delete_bounds:
  assumes "validate s op" "opType op = Delete"
  shows "0 \<le> position op" "0 < lengthOr0 op" "position op + lengthOr0 op \<le> of_nat (length s)"
  using assms by (auto simp: validate_def Let_def split: if_splits)

lemma floor_nonneg_le_length:
  fixes x :: rat
  assumes "0 \<le> x" "x \<le> of_nat n"
  shows "nat \<lfloor>x\<rfloor> \<le> n"
proof -
  from assms(2) have "\<lfloor>x\<rfloor> \<le> int n" by (simp add: floor_le_iff)
  then show ?thesis by simp
qed

lemma floor_add_nat:
  fixes x :: rat
  assumes "0 \<le> x"
  shows "nat \<lfloor>x + of_nat n\<rfloor> = nat \<lfloor>x\<rfloor> + n"
proof -
  have "\<lfloor>x + of_nat n\<rfloor> = \<lfloor>x\<rfloor> + int n"
    by (metis floor_add_int of_int_of_nat_eq)
  moreover from assms have "0 \<le> \<lfloor>x\<rfloor>" by simp
  ultimately show ?thesis by (simp add: nat_add_distrib)
qed

lemma floor_diff_nat:
  fixes x :: rat
  assumes "of_nat n \<le> x"
  shows "nat \<lfloor>x - of_nat n\<rfloor> = nat \<lfloor>x\<rfloor> - n"
proof -
  have "\<lfloor>x - of_nat n\<rfloor> = \<lfloor>x\<rfloor> - int n"
    by (metis floor_diff_of_int of_int_of_nat_eq)
  then show ?thesis by (simp add: nat_diff_distrib')
qed

lemma nat_floor_mono:
  fixes x y :: rat
  shows "x \<le> y \<Longrightarrow> nat \<lfloor>x\<rfloor> \<le> nat \<lfloor>y\<rfloor>"
  by (simp add: floor_mono nat_mono)

lemma applyOp_delete_at:
  assumes "opType op = Delete" "0 \<le> position op" "0 \<le> position op + lengthOr0 op"
    and "nat \<lfloor>position op\<rfloor> = i" "nat \<lfloor>position op + lengthOr0 op\<rfloor> = j"
  shows "applyOp s op = take i s @ drop j s"
  using applyOp_delete[OF assms(1-3), of s] assms(4,5) by simp

lemma insertedLength_text: "insertedLength op = of_nat (length (textOrEmpty op))"
  by (simp add: insertedLength_def textOrEmpty_def split: option.split)

lemma textOrEmpty_transform: "textOrEmpty (transform op otherOp) = textOrEmpty op"
  by (simp add: textOrEmpty_def transform_keeps)

subsection \<open>The convergence equation, case by case\<close>

lemma ii_half:
  assumes va: "validate s a" and vb: "validate s b"
    and ta: "opType a = Insert" and tb: "opType b = Insert"
    and lt: "position a < position b"
  shows "applyOp (applyOp s a) (transform b a) = applyOp (applyOp s b) (transform a b)"
proof -
  note ba = validate_insert_bounds[OF va ta] and bb = validate_insert_bounds[OF vb tb]
  define p where "p = nat \<lfloor>position a\<rfloor>"
  define q where "q = nat \<lfloor>position b\<rfloor>"
  have pq: "p \<le> q" unfolding p_def q_def
    using lt by (simp add: floor_mono nat_mono)
  have ql: "q \<le> length s" unfolding q_def using bb by (rule floor_nonneg_le_length)
  have sa: "applyOp s a = take p s @ textOrEmpty a @ drop p s"
    unfolding p_def using ta ba(1) by (rule applyOp_insert)
  have sb: "applyOp s b = take q s @ textOrEmpty b @ drop q s"
    unfolding q_def using tb bb(1) by (rule applyOp_insert)
  have tab: "transform a b = a"
    using tb lt by (simp add: transform_def)
  have tba: "transform b a = b\<lparr>position := position b + of_nat (length (textOrEmpty a))\<rparr>"
    using ta lt by (simp add: transform_def insertedLength_text)
  have pos: "0 \<le> position (transform b a)"
    using bb(1) by (simp add: tba)
  have fl: "nat \<lfloor>position (transform b a)\<rfloor> = q + length (textOrEmpty a)"
    unfolding q_def using floor_add_nat[OF bb(1), of "length (textOrEmpty a)"] by (simp add: tba)
  have tyb: "opType (transform b a) = Insert"
    using tb by (simp add: transform_keeps)
  have "applyOp (applyOp s a) (transform b a)
        = take (q + length (textOrEmpty a)) (applyOp s a) @ textOrEmpty b
          @ drop (q + length (textOrEmpty a)) (applyOp s a)"
    using applyOp_insert[OF tyb pos, of "applyOp s a"] by (simp add: fl textOrEmpty_transform)
  moreover have "applyOp (applyOp s b) (transform a b)
        = take p (applyOp s b) @ textOrEmpty a @ drop p (applyOp s b)"
    unfolding tab p_def using ta ba(1) by (rule applyOp_insert)
  ultimately show ?thesis
    unfolding sa sb using ins_ins[OF pq ql] by simp
qed

lemma id_noalias:
  assumes va: "validate s a" and vb: "validate s b"
    and ta: "opType a = Insert" and tb: "opType b = Delete"
    and il: "lengthOr0 b \<in> \<int>"
    and na: "\<not> (position b < position a \<and> position a < position b + lengthOr0 b)"
  shows "applyOp (applyOp s a) (transform b a) = applyOp (applyOp s b) (transform a b)"
proof -
  note ba = validate_insert_bounds[OF va ta] and bb = validate_delete_bounds[OF vb tb]
  from il bb(2) obtain m where m: "lengthOr0 b = of_nat m"
    by (metis nonneg_Ints_of_nat less_imp_le)
  define p where "p = nat \<lfloor>position a\<rfloor>"
  define q where "q = nat \<lfloor>position b\<rfloor>"
  have pl: "p \<le> length s" unfolding p_def using ba by (rule floor_nonneg_le_length)
  have qm: "nat \<lfloor>position b + lengthOr0 b\<rfloor> = q + m"
    unfolding q_def m using bb(1) by (rule floor_add_nat)
  have "0 \<le> position b + lengthOr0 b" using bb(1,2) by simp
  then have "nat \<lfloor>position b + lengthOr0 b\<rfloor> \<le> length s"
    using bb(3) by (rule floor_nonneg_le_length)
  then have qml: "q + m \<le> length s" by (simp add: qm)
  have sa: "applyOp s a = take p s @ textOrEmpty a @ drop p s"
    unfolding p_def using ta ba(1) by (rule applyOp_insert)
  have sb: "applyOp s b = take q s @ drop (q + m) s"
    using applyOp_delete[OF tb bb(1), of s] bb(1,2) by (simp add: qm q_def)
  from na consider (before) "position a \<le> position b"
    | (after) "position b + lengthOr0 b \<le> position a" by fastforce
  then show ?thesis
  proof cases
    case before
    have pq: "p \<le> q" unfolding p_def q_def using before by (simp add: floor_mono nat_mono)
    have tab: "transform a b = a"
      using ta tb before bb(2) by (simp add: transform_def Let_def)
    have tba: "transform b a = b\<lparr>position := position b + of_nat (length (textOrEmpty a))\<rparr>"
      using ta before by (simp add: transform_def insertedLength_text)
    have tyb: "opType (transform b a) = Delete" using tb by (simp add: transform_keeps)
    have pos: "0 \<le> position (transform b a)"
      "0 \<le> position (transform b a) + lengthOr0 (transform b a)"
      using bb(1,2) by (simp_all add: tba lengthOr0_def)
    have f1: "nat \<lfloor>position (transform b a)\<rfloor> = q + length (textOrEmpty a)"
      unfolding q_def using floor_add_nat[OF bb(1), of "length (textOrEmpty a)"] by (simp add: tba)
    have "position (transform b a) + lengthOr0 (transform b a)
          = position b + of_nat (length (textOrEmpty a) + m)"
      using m by (simp add: tba lengthOr0_def)
    then have f2: "nat \<lfloor>position (transform b a) + lengthOr0 (transform b a)\<rfloor>
          = q + length (textOrEmpty a) + m"
      unfolding q_def using floor_add_nat[OF bb(1), of "length (textOrEmpty a) + m"]
      by (simp only: add.assoc)
    have "applyOp (applyOp s a) (transform b a)
          = take (q + length (textOrEmpty a)) (applyOp s a)
            @ drop (q + length (textOrEmpty a) + m) (applyOp s a)"
      using applyOp_delete[OF tyb pos, of "applyOp s a"] by (simp add: f1 f2)
    moreover have "applyOp (applyOp s b) (transform a b)
          = take p (applyOp s b) @ textOrEmpty a @ drop p (applyOp s b)"
      unfolding tab p_def using ta ba(1) by (rule applyOp_insert)
    ultimately show ?thesis
      unfolding sa sb using ins_del_before[OF pq qml] by simp
  next
    case after
    have qmp: "q + m \<le> p"
    proof -
      have "nat \<lfloor>position b + lengthOr0 b\<rfloor> \<le> nat \<lfloor>position a\<rfloor>"
        using after by (simp add: floor_mono nat_mono)
      then show ?thesis by (simp add: qm p_def)
    qed
    have nle: "\<not> position a \<le> position b" using after bb(2) by simp
    have tab: "transform a b = a\<lparr>position := position a - lengthOr0 b\<rparr>"
      using ta tb after by (simp add: transform_def Let_def)
    have tba: "transform b a = b"
      using ta nle by (simp add: transform_def)
    have tya: "opType (transform a b) = Insert" using ta by (simp add: transform_keeps)
    have ge: "of_nat m \<le> position a" using after bb(1) m by simp
    then have pos: "0 \<le> position (transform a b)" by (simp add: tab m)
    have f1: "nat \<lfloor>position (transform a b)\<rfloor> = p - m"
      unfolding p_def using ge by (simp add: tab m floor_diff_nat)
    have "applyOp (applyOp s b) (transform a b)
          = take (p - m) (applyOp s b) @ textOrEmpty a @ drop (p - m) (applyOp s b)"
      using applyOp_insert[OF tya pos, of "applyOp s b"] by (simp add: f1 textOrEmpty_transform)
    moreover have "applyOp (applyOp s a) (transform b a)
          = take q (applyOp s a) @ drop (q + m) (applyOp s a)"
      unfolding tba using applyOp_delete[OF tb bb(1), of "applyOp s a"] bb(1,2)
      by (simp add: qm q_def)
    ultimately show ?thesis
      unfolding sa sb using ins_del_after[OF qmp pl] by simp
  qed
qed

lemma dd_half:
  assumes va: "validate s a" and vb: "validate s b"
    and ta: "opType a = Delete" and tb: "opType b = Delete"
    and ia: "lengthOr0 a \<in> \<int>" and ib: "lengthOr0 b \<in> \<int>"
    and le: "position b \<le> position a"
  shows "applyOp (applyOp s a) (transform b a) = applyOp (applyOp s b) (transform a b)"
proof -
  note ba = validate_delete_bounds[OF va ta] and bb = validate_delete_bounds[OF vb tb]
  from ia ba(2) obtain l where l: "lengthOr0 a = of_nat l"
    by (metis nonneg_Ints_of_nat less_imp_le)
  from ib bb(2) obtain m where m: "lengthOr0 b = of_nat m"
    by (metis nonneg_Ints_of_nat less_imp_le)
  have la: "opLength a = Some (of_nat l)" and lb: "opLength b = Some (of_nat m)"
    using ba(2) bb(2) l m by (auto simp: lengthOr0_def split: option.splits)
  have rl: "(0::rat) < of_nat l" and rm: "(0::rat) < of_nat m"
    using ba(2) bb(2) l m by simp_all
  define p where "p = nat \<lfloor>position a\<rfloor>"
  define q where "q = nat \<lfloor>position b\<rfloor>"
  have qp: "q \<le> p" unfolding p_def q_def using le by (rule nat_floor_mono)
  have pl: "nat \<lfloor>position a + of_nat l\<rfloor> = p + l"
    unfolding p_def using ba(1) by (rule floor_add_nat)
  have qm: "nat \<lfloor>position b + of_nat m\<rfloor> = q + m"
    unfolding q_def using bb(1) by (rule floor_add_nat)
  have na: "0 \<le> position a + lengthOr0 a" and nb: "0 \<le> position b + lengthOr0 b"
    using ba(1,2) bb(1,2) by simp_all
  have ea: "nat \<lfloor>position a + lengthOr0 a\<rfloor> = p + l" unfolding l by (rule pl)
  have eb: "nat \<lfloor>position b + lengthOr0 b\<rfloor> = q + m" unfolding m by (rule qm)
  have "nat \<lfloor>position a + lengthOr0 a\<rfloor> \<le> length s"
    using na ba(3) by (rule floor_nonneg_le_length)
  then have pll: "p + l \<le> length s" by (simp only: ea)
  have "nat \<lfloor>position b + lengthOr0 b\<rfloor> \<le> length s"
    using nb bb(3) by (rule floor_nonneg_le_length)
  then have qml: "q + m \<le> length s" by (simp only: eb)
  have apa: "\<And>t. applyOp t a = take p t @ drop (p + l) t"
    by (rule applyOp_delete_at[OF ta ba(1) na p_def[symmetric] ea])
  have apb: "\<And>t. applyOp t b = take q t @ drop (q + m) t"
    by (rule applyOp_delete_at[OF tb bb(1) nb q_def[symmetric] eb])
  have tya: "opType (transform a b) = Delete" and tyb: "opType (transform b a) = Delete"
    using ta tb by (simp_all add: transform_keeps)
  consider (before) "position b + of_nat m \<le> position a"
    | (inside) "position a < position b + of_nat m" "position a + of_nat l \<le> position b + of_nat m"
    | (partial) "position a < position b + of_nat m" "position b + of_nat m < position a + of_nat l"
    by linarith
  then show ?thesis
  proof cases
    case before
    have qmp: "q + m \<le> p"
      using nat_floor_mono[OF before] by (simp only: qm p_def)
    have tab: "transform a b = a\<lparr>position := position a - of_nat m\<rparr>"
      using before rl rm le by (simp add: transform_def Let_def lengthOr0_def ta tb la lb)
    have tba: "transform b a = b"
      using before rl rm le by (simp add: transform_def Let_def lengthOr0_def ta tb la lb)
    have pa1: "position (transform a b) = position a - of_nat m"
      and pa2: "lengthOr0 (transform a b) = of_nat l"
      by (simp_all add: tab lengthOr0_def la)
    have ge: "of_nat m \<le> position a" using before bb(1) by simp
    have f1: "nat \<lfloor>position a - of_nat m\<rfloor> = p - m"
      unfolding p_def using ge by (rule floor_diff_nat)
    have g0: "0 \<le> position a - of_nat m" using ge by simp
    have "nat \<lfloor>(position a - of_nat m) + of_nat l\<rfloor> = nat \<lfloor>position a - of_nat m\<rfloor> + l"
      using g0 by (rule floor_add_nat)
    then have f2: "nat \<lfloor>position a - of_nat m + of_nat l\<rfloor> = p - m + l" by (simp only: f1)
    have g1: "0 \<le> position (transform a b)" unfolding pa1 by (rule g0)
    have g2: "0 \<le> position (transform a b) + lengthOr0 (transform a b)"
      unfolding pa1 pa2 using g0 by simp
    have g3: "nat \<lfloor>position (transform a b)\<rfloor> = p - m" unfolding pa1 by (rule f1)
    have g4: "nat \<lfloor>position (transform a b) + lengthOr0 (transform a b)\<rfloor> = p - m + l"
      unfolding pa1 pa2 by (rule f2)
    have "applyOp (applyOp s b) (transform a b)
          = take (p - m) (applyOp s b) @ drop (p - m + l) (applyOp s b)"
      by (rule applyOp_delete_at[OF tya g1 g2 g3 g4])
    then show ?thesis
      unfolding tba apa apb using del_del_disjoint[OF qmp pll] by simp
  next
    case inside
    have plqm: "p + l \<le> q + m"
      using nat_floor_mono[OF inside(2)] by (simp only: pl qm)
    have lm: "l \<le> m"
    proof -
      from inside(2) le have "(of_nat l :: rat) \<le> of_nat m" by simp
      then show ?thesis by (simp only: of_nat_le_iff)
    qed
    have pa: "lengthOr0 (transform a b) = 0"
      using inside rl rm le by (simp add: transform_def Let_def lengthOr0_def ta tb la lb)
    have pb1: "position (transform b a) = position b"
      using inside rl rm le by (simp add: transform_def Let_def lengthOr0_def ta tb la lb)
    have "lengthOr0 (transform b a) = of_nat m - of_nat l"
      using inside rl rm le by (simp add: transform_def Let_def lengthOr0_def ta tb la lb)
    then have pb2: "lengthOr0 (transform b a) = of_nat (m - l)"
      using lm by simp
    have g1: "0 \<le> position (transform b a)" unfolding pb1 by (rule bb(1))
    have g2: "0 \<le> position (transform b a) + lengthOr0 (transform b a)"
      unfolding pb1 pb2 using bb(1) by simp
    have g3: "nat \<lfloor>position (transform b a)\<rfloor> = q" unfolding pb1 q_def by (rule refl)
    have g4: "nat \<lfloor>position (transform b a) + lengthOr0 (transform b a)\<rfloor> = q + (m - l)"
      unfolding pb1 pb2 q_def using bb(1) by (rule floor_add_nat)
    have "applyOp (applyOp s a) (transform b a)
          = take q (applyOp s a) @ drop (q + (m - l)) (applyOp s a)"
      by (rule applyOp_delete_at[OF tyb g1 g2 g3 g4])
    then show ?thesis
      unfolding apa apb applyOp_delete_zero[OF tya pa]
      using del_del_inside[OF qp plqm qml] by simp
  next
    case partial
    have pqm: "p \<le> q + m"
      using nat_floor_mono[OF less_imp_le[OF partial(1)]] by (simp only: qm p_def)
    have qmpl: "q + m \<le> p + l"
      using nat_floor_mono[OF less_imp_le[OF partial(2)]] by (simp only: pl qm)
    have pa1: "position (transform a b) = position b"
      using partial rl rm le by (simp add: transform_def Let_def lengthOr0_def ta tb la lb)
    have pa2: "lengthOr0 (transform a b) = position a + of_nat l - (position b + of_nat m)"
      using partial rl rm le by (simp add: transform_def Let_def lengthOr0_def ta tb la lb)
    have pb1: "position (transform b a) = position b"
      using partial rl rm le by (simp add: transform_def Let_def lengthOr0_def ta tb la lb)
    have pb2: "lengthOr0 (transform b a) = position a - position b"
      using partial rl rm le by (simp add: transform_def Let_def lengthOr0_def ta tb la lb)
    have ge: "of_nat m \<le> position a + of_nat l" using partial(2) bb(1) by simp
    have "nat \<lfloor>(position a + of_nat l) - of_nat m\<rfloor> = nat \<lfloor>position a + of_nat l\<rfloor> - m"
      using ge by (rule floor_diff_nat)
    then have fa: "nat \<lfloor>position a + of_nat l - of_nat m\<rfloor> = p + l - m" by (simp only: pl)
    have sa': "position (transform a b) + lengthOr0 (transform a b) = position a + of_nat l - of_nat m"
      by (simp add: pa1 pa2)
    have sb': "position (transform b a) + lengthOr0 (transform b a) = position a"
      by (simp add: pb1 pb2)
    have a1: "0 \<le> position (transform a b)" unfolding pa1 by (rule bb(1))
    have a2: "0 \<le> position (transform a b) + lengthOr0 (transform a b)"
      unfolding sa' using ge by simp
    have a3: "nat \<lfloor>position (transform a b)\<rfloor> = q" unfolding pa1 q_def by (rule refl)
    have a4: "nat \<lfloor>position (transform a b) + lengthOr0 (transform a b)\<rfloor> = p + l - m"
      unfolding sa' by (rule fa)
    have b1: "0 \<le> position (transform b a)" unfolding pb1 by (rule bb(1))
    have b2: "0 \<le> position (transform b a) + lengthOr0 (transform b a)"
      unfolding sb' by (rule ba(1))
    have b3: "nat \<lfloor>position (transform b a)\<rfloor> = q" unfolding pb1 q_def by (rule refl)
    have b4: "nat \<lfloor>position (transform b a) + lengthOr0 (transform b a)\<rfloor> = p"
      unfolding sb' p_def by (rule refl)
    have "applyOp (applyOp s b) (transform a b)
          = take q (applyOp s b) @ drop (p + l - m) (applyOp s b)"
      by (rule applyOp_delete_at[OF tya a1 a2 a3 a4])
    moreover have "applyOp (applyOp s a) (transform b a)
          = take q (applyOp s a) @ drop p (applyOp s a)"
      by (rule applyOp_delete_at[OF tyb b1 b2 b3 b4])
    moreover have "q + (p - q) = p" "q + (p + l - (q + m)) = p + l - m"
      using qp qmpl by simp_all
    ultimately show ?thesis
      unfolding apa apb using del_del_partial[OF qp pqm qmpl pll] by simp
  qed
qed

text \<open>
  C5, as the code has it. For a content \<open>s\<close> and two operations \<open>a\<close>, \<open>b\<close> valid on
  \<open>s\<close> whose positions are whole numbers, the two orders converge,
  \<open>apply(apply(s, a), transform(b, a)) = apply(apply(s, b), transform(a, b))\<close>,
  when \<open>a\<close> and \<open>b\<close> are inserts at different positions, or one is an insert and the
  other a delete of whole-number length whose removed range does not strictly contain
  the insert position.
\<close>

theorem tp1_insert_insert_and_insert_delete:
  assumes "validate s a" and "validate s b"
    and "position a \<in> \<int>" and "position b \<in> \<int>"
    and "(opType a = Insert \<and> opType b = Insert \<and> position a \<noteq> position b)
       \<or> (opType a = Insert \<and> opType b = Delete \<and> lengthOr0 b \<in> \<int>
            \<and> \<not> (position b < position a \<and> position a < position b + lengthOr0 b))
       \<or> (opType a = Delete \<and> opType b = Insert \<and> lengthOr0 a \<in> \<int>
            \<and> \<not> (position a < position b \<and> position b < position a + lengthOr0 a))"
  shows "applyOp (applyOp s a) (transform b a) = applyOp (applyOp s b) (transform a b)"
proof -
  consider (ii) "opType a = Insert" "opType b = Insert" "position a \<noteq> position b"
    | (id) "opType a = Insert" "opType b = Delete" "lengthOr0 b \<in> \<int>"
           "\<not> (position b < position a \<and> position a < position b + lengthOr0 b)"
    | (di) "opType a = Delete" "opType b = Insert" "lengthOr0 a \<in> \<int>"
           "\<not> (position a < position b \<and> position b < position a + lengthOr0 a)"
    using assms(5) by blast
  then show ?thesis
  proof cases
    case ii
    then consider "position a < position b" | "position b < position a" by linarith
    then show ?thesis
    proof cases
      case 1
      show ?thesis by (rule ii_half[OF assms(1,2) ii(1,2) 1])
    next
      case 2
      show ?thesis by (rule sym) (rule ii_half[OF assms(2,1) ii(2,1) 2])
    qed
  next
    case id
    show ?thesis by (rule id_noalias[OF assms(1,2) id])
  next
    case di
    show ?thesis by (rule sym) (rule id_noalias[OF assms(2,1) di(2,1,3,4)])
  qed
qed

theorem tp1_insert_insert_and_insert_delete_witness:
  "validate ''hello world'' (insertOp ''1'' ''u1'' 5 6 ''big '')
   \<and> validate ''hello world'' (deleteOp ''2'' ''u2'' 5 0 6)
   \<and> applyOp (applyOp ''hello world'' (insertOp ''1'' ''u1'' 5 6 ''big ''))
         (transform (deleteOp ''2'' ''u2'' 5 0 6) (insertOp ''1'' ''u1'' 5 6 ''big ''))
     = applyOp (applyOp ''hello world'' (deleteOp ''2'' ''u2'' 5 0 6))
         (transform (insertOp ''1'' ''u1'' 5 6 ''big '') (deleteOp ''2'' ''u2'' 5 0 6))"
proof -
  let ?a = "insertOp ''1'' ''u1'' 5 6 ''big ''"
  let ?b = "deleteOp ''2'' ''u2'' 5 0 6"
  have va: "validate ''hello world'' ?a"
    by (simp add: validate_def insertOp_def)
  have vb: "validate ''hello world'' ?b"
    by (simp add: validate_def deleteOp_def lengthOr0_def)
  have na: "(opType ?a = Insert \<and> opType ?b = Insert \<and> position ?a \<noteq> position ?b)
          \<or> (opType ?a = Insert \<and> opType ?b = Delete \<and> lengthOr0 ?b \<in> \<int>
               \<and> \<not> (position ?b < position ?a \<and> position ?a < position ?b + lengthOr0 ?b))
          \<or> (opType ?a = Delete \<and> opType ?b = Insert \<and> lengthOr0 ?a \<in> \<int>
               \<and> \<not> (position ?a < position ?b \<and> position ?b < position ?a + lengthOr0 ?a))"
    by (simp add: insertOp_def deleteOp_def lengthOr0_def)
  have ia: "position ?a \<in> \<int>" and ib: "position ?b \<in> \<int>"
    by (simp_all add: insertOp_def deleteOp_def)
  from va vb tp1_insert_insert_and_insert_delete [OF va vb ia ib na] show ?thesis by simp
qed

text \<open>
  Two inserts at the same position each shift past the other (the test
  \<open>position \<le> position\<close> holds both ways), so the two orders give different strings
  unless the texts commute: \<open>"test"\<close> with \<open>"A"\<close> and \<open>"B"\<close> at position 2 gives
  \<open>"teABst"\<close> one way and \<open>"teBAst"\<close> the other. And \<open>validate\<close> accepts a delete of
  length one half, which removes nothing but still moves an insert behind it by one
  half: on \<open>"xyz"\<close>, an insert of \<open>"A"\<close> at 1 and that delete at 0 give \<open>"xAyz"\<close> one
  way and \<open>"Axyz"\<close> the other.
\<close>

theorem tp1_same_position_inserts_counterexample:
  "validate ''test'' (insertOp ''1'' ''user1'' 0 2 ''A'')
   \<and> validate ''test'' (insertOp ''2'' ''user2'' 0 2 ''B'')
   \<and> applyOp (applyOp ''test'' (insertOp ''1'' ''user1'' 0 2 ''A''))
         (transform (insertOp ''2'' ''user2'' 0 2 ''B'') (insertOp ''1'' ''user1'' 0 2 ''A''))
       = ''teABst''
   \<and> applyOp (applyOp ''test'' (insertOp ''2'' ''user2'' 0 2 ''B''))
         (transform (insertOp ''1'' ''user1'' 0 2 ''A'') (insertOp ''2'' ''user2'' 0 2 ''B''))
       = ''teBAst''
   \<and> validate ''xyz'' (insertOp ''3'' ''user1'' 0 1 ''A'')
   \<and> validate ''xyz'' (deleteOp ''4'' ''user2'' 0 0 (1 / 2))
   \<and> \<not> (position (deleteOp ''4'' ''user2'' 0 0 (1 / 2)) < position (insertOp ''3'' ''user1'' 0 1 ''A'')
         \<and> position (insertOp ''3'' ''user1'' 0 1 ''A'')
             < position (deleteOp ''4'' ''user2'' 0 0 (1 / 2))
               + lengthOr0 (deleteOp ''4'' ''user2'' 0 0 (1 / 2)))
   \<and> applyOp (applyOp ''xyz'' (insertOp ''3'' ''user1'' 0 1 ''A''))
         (transform (deleteOp ''4'' ''user2'' 0 0 (1 / 2)) (insertOp ''3'' ''user1'' 0 1 ''A''))
       = ''xAyz''
   \<and> applyOp (applyOp ''xyz'' (deleteOp ''4'' ''user2'' 0 0 (1 / 2)))
         (transform (insertOp ''3'' ''user1'' 0 1 ''A'') (deleteOp ''4'' ''user2'' 0 0 (1 / 2)))
       = ''Axyz''"
  by (simp add: insertOp_def deleteOp_def engine_defs)

text \<open>
  C6, as the code has it. For a content \<open>s\<close> and two deletes \<open>a\<close>, \<open>b\<close>, both valid
  on \<open>s\<close>, with whole-number positions and lengths, whose ranges overlap, the two
  orders give the same string, also when one transformed side has length 0.
\<close>

theorem delete_delete_convergence:
  assumes "validate s a" and "validate s b"
    and "opType a = Delete" and "opType b = Delete"
    and "position a \<in> \<int>" and "lengthOr0 a \<in> \<int>"
    and "position b \<in> \<int>" and "lengthOr0 b \<in> \<int>"
    and "position a < position b + lengthOr0 b" and "position b < position a + lengthOr0 a"
  shows "applyOp (applyOp s a) (transform b a) = applyOp (applyOp s b) (transform a b)"
proof (cases "position b \<le> position a")
  case True
  show ?thesis by (rule dd_half[OF assms(1-4) assms(6) assms(8) True])
next
  case False
  then have le: "position a \<le> position b" by simp
  show ?thesis by (rule sym) (rule dd_half[OF assms(2,1,4,3) assms(8) assms(6) le])
qed

theorem delete_delete_convergence_witness:
  "lengthOr0 (transform (deleteOp ''2'' ''u2'' 0 3 3) (deleteOp ''1'' ''u1'' 0 2 4)) = 0
   \<and> applyOp (applyOp ''abcdefgh'' (deleteOp ''1'' ''u1'' 0 2 4))
         (transform (deleteOp ''2'' ''u2'' 0 3 3) (deleteOp ''1'' ''u1'' 0 2 4))
     = applyOp (applyOp ''abcdefgh'' (deleteOp ''2'' ''u2'' 0 3 3))
         (transform (deleteOp ''1'' ''u1'' 0 2 4) (deleteOp ''2'' ''u2'' 0 3 3))"
proof -
  let ?a = "deleteOp ''1'' ''u1'' 0 2 4"
  let ?b = "deleteOp ''2'' ''u2'' 0 3 3"
  have va: "validate ''abcdefgh'' ?a" and vb: "validate ''abcdefgh'' ?b"
    by (simp_all add: validate_def deleteOp_def lengthOr0_def)
  have ta: "opType ?a = Delete" and tb: "opType ?b = Delete"
    by (simp_all add: deleteOp_def)
  have ia: "position ?a \<in> \<int>" "lengthOr0 ?a \<in> \<int>"
    and ib: "position ?b \<in> \<int>" "lengthOr0 ?b \<in> \<int>"
    by (simp_all add: deleteOp_def lengthOr0_def)
  have o1: "position ?a < position ?b + lengthOr0 ?b"
    and o2: "position ?b < position ?a + lengthOr0 ?a"
    by (simp_all add: deleteOp_def lengthOr0_def)
  have z: "lengthOr0 (transform ?b ?a) = 0"
    by (simp add: deleteOp_def transform_def lengthOr0_def)
  from z delete_delete_convergence [OF va vb ta tb ia ib o1 o2] show ?thesis by simp
qed

text \<open>
  \<open>validate\<close> has no test that a length is a whole number. On \<open>"xyz"\<close>, a delete of
  length one half at 1 removes nothing, yet it takes one half off an overlapping delete
  of length 2 at 0, which then removes one character instead of two: \<open>"yz"\<close> one way,
  \<open>"z"\<close> the other.
\<close>

theorem delete_delete_fractional_length_counterexample:
  "validate ''xyz'' (deleteOp ''1'' ''u1'' 0 1 (1 / 2))
   \<and> validate ''xyz'' (deleteOp ''2'' ''u2'' 0 0 2)
   \<and> position (deleteOp ''1'' ''u1'' 0 1 (1 / 2))
       < position (deleteOp ''2'' ''u2'' 0 0 2) + lengthOr0 (deleteOp ''2'' ''u2'' 0 0 2)
   \<and> position (deleteOp ''2'' ''u2'' 0 0 2)
       < position (deleteOp ''1'' ''u1'' 0 1 (1 / 2)) + lengthOr0 (deleteOp ''1'' ''u1'' 0 1 (1 / 2))
   \<and> applyOp (applyOp ''xyz'' (deleteOp ''1'' ''u1'' 0 1 (1 / 2)))
         (transform (deleteOp ''2'' ''u2'' 0 0 2) (deleteOp ''1'' ''u1'' 0 1 (1 / 2)))
       = ''yz''
   \<and> applyOp (applyOp ''xyz'' (deleteOp ''2'' ''u2'' 0 0 2))
         (transform (deleteOp ''1'' ''u1'' 0 1 (1 / 2)) (deleteOp ''2'' ''u2'' 0 0 2))
       = ''z''"
  by (simp add: deleteOp_def engine_defs)

section \<open>The document manager: what applyOperation checks\<close>

lemma foldl_transform_userId: "userId (foldl transform op ops) = userId op"
  by (induction ops arbitrary: op) (simp_all add: transform_keeps)

lemma transformAgainstPending_userId: "userId (transformAgainstPending state op) = userId op"
  by (simp add: transformAgainstPending_def foldl_transform_userId)



lemma loadDocument_loaded:
  "documents mgr d = Some state \<Longrightarrow> loadDocument env mgr d = (mgr, Inr state)"
  by (simp add: loadDocument_def)

lemma applyOperation_invalid:
  "documents mgr d = Some state \<Longrightarrow> \<not> validate (content state) op \<Longrightarrow>
   applyOperation env mgr d op = (mgr, Inl (Error ''Invalid operation''))"
  by (simp add: applyOperation_def loadDocument_loaded)

lemma applyOperation_result_transformed:
  "applyOperation env mgr d op = (mgr', Inr r) \<Longrightarrow>
   \<exists>state. transformedOp r = transformAgainstPending state op"
  by (auto simp: applyOperation_def Let_def split: prod.splits sum.splits if_splits option.splits)

lemma last_lastTen_snoc: "last (lastTen (xs @ [x])) = x"
  by (simp add: lastTen_def)

lemma applyOperation_valid_state:
  assumes "documents mgr d = Some state" "validate (content state) op"
  shows "\<exists>state'. documents (fst (applyOperation env mgr d op)) d = Some state'
           \<and> content state' = applyOp (content state) (transformAgainstPending state op)
           \<and> version state' = version state + 1
           \<and> last (pendingOps state') = transformAgainstPending state op"
  using assms
  by (auto simp: applyOperation_def loadDocument_loaded persistDocument_def Let_def last_lastTen_snoc
           split: option.splits)

lemma applyOperation_valid_result:
  assumes "documents mgr d = Some state" "validate (content state) op" "storeError env = None"
  shows "snd (applyOperation env mgr d op)
         = Inr \<lparr>newVersion = version state + 1, transformedOp = transformAgainstPending state op\<rparr>"
  using assms
  by (auto simp: applyOperation_def loadDocument_loaded persistDocument_def Let_def
           split: option.splits)

lemma applyOperation_rejected_before_apply:
  assumes "snd (applyOperation env mgr d op) = Inl (Error ''Invalid operation'')
           \<or> snd (applyOperation env mgr d op) = Inl (Error ''Document not found'')"
    and "storeError env = None"
  shows "documents (fst (applyOperation env mgr d op)) d = documents mgr d
       \<or> (\<exists>doc. documents mgr d = None \<and> documentModel mgr d = Some doc
             \<and> documents (fst (applyOperation env mgr d op)) d
                = Some \<lparr>content = storedContent doc, version = storedVersion doc, pendingOps = [],
                       lastSaveTime = now env, opsSinceLastSave = 0\<rparr>)"
  using assms
  by (auto simp: applyOperation_def loadDocument_def persistDocument_def Let_def
           split: option.splits if_splits)

lemma applyOperationWith_alone:
  "applyOperationWith (\<lambda>state. state) (now env) env mgr d op = applyOperation env mgr d op"
proof -
  have p: "\<And>m. persistDocumentWith (\<lambda>state. state) (now env) env m d
                = persistDocument env m d"
    by (auto simp: persistDocumentWith_def persistDocument_def Let_def map_upd_triv
             split: option.split)
  show ?thesis
    by (auto simp: applyOperationWith_def applyOperation_def p Let_def persistDocument_def
             split: prod.splits sum.splits option.splits)
qed

text \<open>
  C2, as the code has it. \<open>applyOperation\<close> compares \<open>baseVersion\<close> with the version
  only to decide whether to transform; it rejects nothing on that ground. On a loaded
  document, any operation that validates against the current content is applied,
  whatever its \<open>baseVersion\<close>: the content becomes the result of applying the
  transformed operation, the version goes up by one, and the transformed operation is
  appended to \<open>pendingOps\<close>; an operation whose \<open>baseVersion\<close> is not below the version
  is applied as submitted. If no write-back is due, the call returns \<open>version + 1\<close>. If
  one is due and the store accepts it, the call returns the version it reads once the
  write-back has settled, which is \<open>version + 1\<close> unless another call changed it
  meanwhile. If the store rejects it, the call fails with the store's error and the
  operation stays applied.
\<close>

theorem applyOperation_has_no_baseVersion_check:
  assumes "documents mgr d = Some state" and "validate (content state) op"
  shows "let op' = transformAgainstPending state op;
             applied = state\<lparr>content := applyOp (content state) op',
                              version := version state + 1,
                              pendingOps := pendingOps state @ [op'],
                              opsSinceLastSave := opsSinceLastSave state + 1\<rparr>;
             settled = meanwhile applied;
             result = applyOperationWith meanwhile later env mgr d op
         in (of_int (version state) \<le> baseVersion op \<longrightarrow> op' = op)
            \<and> (if now env - lastSaveTime state < SAVE_INTERVAL
                    \<and> opsSinceLastSave state + 1 < SAVE_OP_THRESHOLD
                 then result
                      = (mgr\<lparr>documents := (documents mgr)(d \<mapsto> applied)\<rparr>,
                         Inr \<lparr>newVersion = version state + 1, transformedOp = op'\<rparr>)
                 else case storeError env of
                        None \<Rightarrow>
                          documents (fst result) d
                            = Some (settled\<lparr>lastSaveTime := later, opsSinceLastSave := 0,
                                            pendingOps := lastTen (pendingOps settled)\<rparr>)
                          \<and> snd result
                            = Inr \<lparr>newVersion = version settled, transformedOp = op'\<rparr>
                      | Some msg \<Rightarrow>
                          documents (fst result) d = Some settled
                          \<and> snd result = Inl (Error msg))"
proof -
  have t: "of_int (version state) \<le> baseVersion op \<longrightarrow> transformAgainstPending state op = op"
    by (simp add: transformAgainstPending_def)
  show ?thesis
    using assms t
    by (simp add: applyOperationWith_def loadDocument_loaded persistDocumentWith_def Let_def
             split: option.split)
qed

theorem applyOperation_has_no_baseVersion_check_witness:
  "snd (applyOperationWith (\<lambda>state. state) 0 storeUp
          (exampleDocuments (exampleState ''abc'' 0 [])) ''doc1''
          (insertOp ''op9'' ''alice'' 7 3 ''!''))
     = Inr \<lparr>newVersion = 1, transformedOp = insertOp ''op9'' ''alice'' 7 3 ''!''\<rparr>
   \<and> map_option content
        (documents (fst (applyOperationWith (\<lambda>state. state) 0 storeUp
          (exampleDocuments (exampleState ''abc'' 0 [])) ''doc1''
          (insertOp ''op9'' ''alice'' 7 3 ''!''))) ''doc1'')
     = Some ''abc!''
   \<and> snd (applyOperationWith (\<lambda>state. state\<lparr>version := version state + 1\<rparr>) 5040 storeUpLater
          (exampleDocuments (exampleState ''abc'' 0 [])) ''doc1''
          (insertOp ''op9'' ''alice'' 7 3 ''!''))
     = Inr \<lparr>newVersion = 2, transformedOp = insertOp ''op9'' ''alice'' 7 3 ''!''\<rparr>"
proof -
  have d: "documents (exampleDocuments (exampleState ''abc'' 0 [])) ''doc1''
           = Some (exampleState ''abc'' 0 [])"
    by (simp add: exampleDocuments_def)
  have v: "validate (content (exampleState ''abc'' 0 [])) (insertOp ''op9'' ''alice'' 7 3 ''!'')"
    by (simp add: validate_def exampleState_def insertOp_def)
  from applyOperation_has_no_baseVersion_check [OF d v, of "\<lambda>state. state" 0 storeUp]
    applyOperation_has_no_baseVersion_check
      [OF d v, of "\<lambda>state. state\<lparr>version := version state + 1\<rparr>" 5040 storeUpLater]
  show ?thesis
    by (simp add: Let_def exampleState_def exampleDocuments_def insertOp_def storeUp_def
        storeUpLater_def SAVE_INTERVAL_def SAVE_OP_THRESHOLD_def applyOp_def slice_def
        sliceFrom_def clampIndex_def toInteger_def textOrEmpty_def)
qed

text \<open>
  An operation from the future (\<open>baseVersion\<close> 5 on version 0) and one older than
  the retained tail (\<open>baseVersion\<close> 1 on version 3 with nothing retained) are both
  applied.
\<close>

theorem baseVersion_out_of_range_counterexample:
  "of_int (version (exampleState ''abc'' 0 [])) < baseVersion (insertOp ''op1'' ''alice'' 5 0 ''x'')
   \<and> snd (applyOperation storeUp (exampleDocuments (exampleState ''abc'' 0 [])) ''doc1''
            (insertOp ''op1'' ''alice'' 5 0 ''x''))
     = Inr \<lparr>newVersion = 1, transformedOp = insertOp ''op1'' ''alice'' 5 0 ''x''\<rparr>
   \<and> baseVersion (insertOp ''op2'' ''bob'' 1 0 ''x'')
       < of_int (version (exampleState ''abc'' 3 [])
                 - int (length (pendingOps (exampleState ''abc'' 3 []))))
   \<and> snd (applyOperation storeUp (exampleDocuments (exampleState ''abc'' 3 [])) ''doc1''
            (insertOp ''op2'' ''bob'' 1 0 ''x''))
     = Inr \<lparr>newVersion = 4, transformedOp = insertOp ''op2'' ''bob'' 1 0 ''x''\<rparr>"
  by (simp add: engine_defs manager_defs example_defs)

text \<open>
  C4, as the code has it. \<open>applyOperation\<close> validates the operation as submitted,
  before any transformation, against the current content. If that fails the call fails
  with \<open>Invalid operation\<close> and nothing changes; if it succeeds the transformed
  operation is applied without a second validation and the version advances.
\<close>

theorem validation_is_on_the_submitted_op:
  assumes "documents mgr d = Some state"
  shows "if validate (content state) op
         then \<exists>state'. documents (fst (applyOperation env mgr d op)) d = Some state'
                \<and> content state' = applyOp (content state) (transformAgainstPending state op)
                \<and> version state' = version state + 1
         else applyOperation env mgr d op = (mgr, Inl (Error ''Invalid operation''))"
proof (cases "validate (content state) op")
  case True
  with applyOperation_valid_state[OF assms True, of env] show ?thesis by auto
next
  case False
  with applyOperation_invalid[OF assms False] show ?thesis by simp
qed

theorem validation_is_on_the_submitted_op_witness:
  "applyOperation storeUp
     (exampleDocuments (exampleState ''ef'' 1 [deleteOp ''op1'' ''alice'' 0 0 4])) ''doc1''
     (insertOp ''op2'' ''bob'' 0 5 ''X'')
   = (exampleDocuments (exampleState ''ef'' 1 [deleteOp ''op1'' ''alice'' 0 0 4]),
      Inl (Error ''Invalid operation''))
   \<and> validate ''ef'' (transformAgainstPending (exampleState ''ef'' 1 [deleteOp ''op1'' ''alice'' 0 0 4])
                        (insertOp ''op2'' ''bob'' 0 5 ''X''))"
proof -
  have d: "documents (exampleDocuments (exampleState ''ef'' 1 [deleteOp ''op1'' ''alice'' 0 0 4])) ''doc1''
           = Some (exampleState ''ef'' 1 [deleteOp ''op1'' ''alice'' 0 0 4])"
    by (simp add: exampleDocuments_def)
  have v: "\<not> validate (content (exampleState ''ef'' 1 [deleteOp ''op1'' ''alice'' 0 0 4]))
               (insertOp ''op2'' ''bob'' 0 5 ''X'')"
    by (simp add: validate_def exampleState_def insertOp_def)
  have t: "validate ''ef'' (transformAgainstPending (exampleState ''ef'' 1 [deleteOp ''op1'' ''alice'' 0 0 4])
                        (insertOp ''op2'' ''bob'' 0 5 ''X''))"
    by (simp add: engine_defs transformAgainstPending_def example_defs)
  from validation_is_on_the_submitted_op [OF d, of "insertOp ''op2'' ''bob'' 0 5 ''X''" storeUp] v t
  show ?thesis by simp
qed

text \<open>
  On \<open>"cab"\<close> at version 1, an insert at position 3 with \<open>baseVersion\<close> 0 validates,
  is shifted to position 4 by the retained insert, no longer validates there, and is
  applied all the same, giving \<open>"cabX"\<close>.
\<close>

theorem transformed_op_not_validated_counterexample:
  "\<not> validate (content (exampleState ''cab'' 1 [insertOp ''op1'' ''alice'' 0 0 ''c'']))
       (transformAgainstPending (exampleState ''cab'' 1 [insertOp ''op1'' ''alice'' 0 0 ''c''])
          (insertOp ''op2'' ''bob'' 0 3 ''X''))
   \<and> snd (applyOperation storeUp
            (exampleDocuments (exampleState ''cab'' 1 [insertOp ''op1'' ''alice'' 0 0 ''c''])) ''doc1''
            (insertOp ''op2'' ''bob'' 0 3 ''X''))
     = Inr \<lparr>newVersion = 2, transformedOp = insertOp ''op2'' ''bob'' 0 4 ''X''\<rparr>
   \<and> map_option content
        (documents (fst (applyOperation storeUp
            (exampleDocuments (exampleState ''cab'' 1 [insertOp ''op1'' ''alice'' 0 0 ''c''])) ''doc1''
            (insertOp ''op2'' ''bob'' 0 3 ''X''))) ''doc1'')
     = Some ''cabX''"
  by (simp add: engine_defs manager_defs example_defs)

section \<open>The connection manager: what is sent to whom\<close>

lemma sendToClient_clients: "clients cm' = clients cm \<Longrightarrow> sendToClient cm' = sendToClient cm"
  by (simp add: sendToClient_def fun_eq_iff)

lemma broadcastToDocument_clients:
  "clients cm' = clients cm \<Longrightarrow> broadcastToDocument cm' = broadcastToDocument cm"
  by (simp add: broadcastToDocument_def fun_eq_iff)

lemma broadcastToDocument_message:
  "(r, m) \<in> set (broadcastToDocument cm d msg ex) \<Longrightarrow> m = msg"
  by (auto simp: broadcastToDocument_def)

lemma broadcastToDocument_not_excluded:
  "(r, m) \<in> set (broadcastToDocument cm d msg (Some c)) \<Longrightarrow> r \<noteq> c"
  by (auto simp: broadcastToDocument_def)

lemma sendToClient_message:
  "(r, m) \<in> set (sendToClient cm c msg) \<Longrightarrow> r = c \<and> m = msg"
  by (auto simp: sendToClient_def split: option.splits if_splits)

lemma handleApplyOp_cases:
  obtains (ignored) "handleApplyOp env cm clientId op = (cm, [], None)"
  | (thrown) mgr e where "handleApplyOp env cm clientId op = (cm\<lparr>documentManager := mgr\<rparr>, [], Some e)"
  | (applied) d mgr and r :: ApplyResult where
      "handleApplyOp env cm clientId op
       = (cm\<lparr>documentManager := mgr\<rparr>,
          sendToClient cm clientId (ACK_OP (opId op) (newVersion r))
            @ broadcastToDocument cm d (BROADCAST_OP (transformedOp r)) (Some clientId),
          None)"
proof (cases "map_of (clients cm) clientId")
  case None
  then have "handleApplyOp env cm clientId op = (cm, [], None)"
    by (simp add: handleApplyOp_def)
  then show ?thesis by (rule ignored)
next
  case (Some client)
  note cl = Some
  show ?thesis
  proof (cases "joinedDoc client")
    case None
    with cl have "handleApplyOp env cm clientId op = (cm, [], None)"
      by (simp add: handleApplyOp_def)
    then show ?thesis by (rule ignored)
  next
    case (Some d)
    note jd = Some
    obtain mgr res where ap: "applyOperation env (documentManager cm) d op = (mgr, res)"
      by (cases "applyOperation env (documentManager cm) d op") auto
    show ?thesis
    proof (cases res)
      case (Inl e)
      with cl jd ap have "handleApplyOp env cm clientId op = (cm\<lparr>documentManager := mgr\<rparr>, [], Some e)"
        by (simp add: handleApplyOp_def)
      then show ?thesis by (rule thrown)
    next
      case (Inr r)
      with cl jd ap have "handleApplyOp env cm clientId op
        = (cm\<lparr>documentManager := mgr\<rparr>,
          sendToClient cm clientId (ACK_OP (opId op) (newVersion r))
            @ broadcastToDocument cm d (BROADCAST_OP (transformedOp r)) (Some clientId),
          None)"
        by (simp add: handleApplyOp_def Let_def
              sendToClient_clients[of "cm\<lparr>documentManager := mgr\<rparr>" cm]
              broadcastToDocument_clients[of "cm\<lparr>documentManager := mgr\<rparr>" cm])
      then show ?thesis by (rule applied)
    qed
  qed
qed

lemma handleMessage_apply_op:
  "handleMessage env cm clientId (APPLY_OP op)
   = (case map_of (clients cm) clientId of
        None \<Rightarrow> (cm, [])
      | Some client \<Rightarrow>
          (case handleApplyOp env cm clientId op of
             (cm1, out, None) \<Rightarrow> (cm1, out)
           | (cm1, out, Some e) \<Rightarrow> (cm1, out @ sendToClient cm1 clientId (ERROR (message e)))))"
  by (simp add: handleMessage_def split: option.split prod.split)

lemma apply_op_error_goes_to_sender_only:
  assumes "(recipient, ERROR m) \<in> set (snd (handleMessage env cm clientId (APPLY_OP op)))"
  shows "recipient = clientId"
proof (cases "map_of (clients cm) clientId")
  case None
  with assms show ?thesis by (simp add: handleMessage_apply_op)
next
  case (Some client)
  show ?thesis
  proof (cases rule: handleApplyOp_cases[of env cm clientId op])
    case ignored
    with assms Some show ?thesis by (simp add: handleMessage_apply_op)
  next
    case (thrown mgr e)
    with assms Some have "(recipient, ERROR m)
        \<in> set (sendToClient (cm\<lparr>documentManager := mgr\<rparr>) clientId (ERROR (message e)))"
      by (simp add: handleMessage_apply_op)
    then show ?thesis by (auto dest: sendToClient_message)
  next
    case (applied d mgr r)
    with assms Some have "(recipient, ERROR m)
        \<in> set (sendToClient cm clientId (ACK_OP (opId op) (newVersion r)))
      \<or> (recipient, ERROR m)
        \<in> set (broadcastToDocument cm d (BROADCAST_OP (transformedOp r)) (Some clientId))"
      by (simp add: handleMessage_apply_op)
    then show ?thesis by (auto dest: sendToClient_message broadcastToDocument_message)
  qed
qed

text \<open>
  C1, as the code has it. \<open>handleApplyOp\<close> passes the client's operation on as it
  came: the \<open>userId\<close> of the operation in every \<open>BROADCAST_OP\<close> it sends is the
  \<open>userId\<close> of the submitted payload. The session's own \<open>userId\<close> is not consulted.
\<close>

theorem broadcast_op_userId_is_payload_userId:
  assumes "(recipient, BROADCAST_OP op') \<in> set (fst (snd (handleApplyOp env cm clientId op)))"
  shows "userId op' = userId op"
proof -
  obtain cm' out thrown where h: "handleApplyOp env cm clientId op = (cm', out, thrown)"
    by (cases "handleApplyOp env cm clientId op") auto
  with assms have mem: "(recipient, BROADCAST_OP op') \<in> set out" by simp
  then have "out \<noteq> []" by auto
  with h obtain d mgr r where
    ap: "applyOperation env (documentManager cm) d op = (mgr, Inr r)"
    and out: "out = sendToClient (cm\<lparr>documentManager := mgr\<rparr>) clientId (ACK_OP (opId op) (newVersion r))
                 @ broadcastToDocument (cm\<lparr>documentManager := mgr\<rparr>) d (BROADCAST_OP (transformedOp r)) (Some clientId)"
    by (auto simp: handleApplyOp_def Let_def split: option.splits prod.splits sum.splits)
  from mem out have "op' = transformedOp r"
    by (auto dest: sendToClient_message broadcastToDocument_message)
  with applyOperation_result_transformed[OF ap] show ?thesis
    by (auto simp: transformAgainstPending_userId)
qed

theorem broadcast_op_userId_is_payload_userId_witness:
  "(''c1'', BROADCAST_OP (insertOp ''op2'' ''mallory'' 0 4 ''X''))
     \<in> set (fst (snd (handleApplyOp storeUp
                         (exampleServer (exampleState ''cab'' 1 [insertOp ''op1'' ''alice'' 0 0 ''c'']))
                         ''c2'' (insertOp ''op2'' ''mallory'' 0 3 ''X''))))
   \<and> userId (insertOp ''op2'' ''mallory'' 0 4 ''X'') = userId (insertOp ''op2'' ''mallory'' 0 3 ''X'')"
proof -
  have mem: "(''c1'', BROADCAST_OP (insertOp ''op2'' ''mallory'' 0 4 ''X''))
     \<in> set (fst (snd (handleApplyOp storeUp
                         (exampleServer (exampleState ''cab'' 1 [insertOp ''op1'' ''alice'' 0 0 ''c'']))
                         ''c2'' (insertOp ''op2'' ''mallory'' 0 3 ''X''))))"
    by (simp add: engine_defs manager_defs server_defs example_defs)
  from mem broadcast_op_userId_is_payload_userId [OF mem] show ?thesis by (rule conjI)
qed

text \<open>
  Session \<open>c1\<close> is authenticated as \<open>alice\<close> and submits an operation whose payload
  says \<open>mallory\<close>; the peer receives \<open>mallory\<close>.
\<close>

theorem broadcast_op_userId_spoofed_counterexample:
  "fst (snd (handleApplyOp storeUp (exampleServer (exampleState ''abc'' 0 [])) ''c1''
               (insertOp ''op1'' ''mallory'' 0 0 ''x'')))
   = [(''c1'', ACK_OP ''op1'' 1), (''c2'', BROADCAST_OP (insertOp ''op1'' ''mallory'' 0 0 ''x''))]
   \<and> map_option clientUserId (map_of (clients (exampleServer (exampleState ''abc'' 0 []))) ''c1'') = Some ''alice''
   \<and> userId (insertOp ''op1'' ''mallory'' 0 0 ''x'') \<noteq> ''alice''"
  by (simp add: engine_defs manager_defs server_defs example_defs)




text \<open>
  C7 on the code. A document was loaded five seconds ago and the store now rejects
  writes. A valid insert is applied (content, version and \<open>pendingOps\<close> change), the
  write-back that is due rejects, and the sender alone gets an \<open>ERROR\<close>: the failure
  is reported although the state has changed. Failures raised before the apply
  (\<open>applyOperation_rejected_before_apply\<close>) do leave the state alone, and an
  \<open>ERROR\<close> never goes to another session (\<open>apply_op_error_goes_to_sender_only\<close>).
\<close>

theorem rejected_write_back_leaves_op_applied:
  "map_option content (documents (documentManager (exampleServer (exampleState ''abc'' 0 []))) ''doc1'')
     = Some ''abc''
   \<and> validate ''abc'' (insertOp ''op1'' ''alice'' 0 0 ''x'')
   \<and> snd (handleMessage storeDown (exampleServer (exampleState ''abc'' 0 [])) ''c1''
            (APPLY_OP (insertOp ''op1'' ''alice'' 0 0 ''x'')))
     = [(''c1'', ERROR ''store unavailable'')]
   \<and> documents (documentManager (fst (handleMessage storeDown
            (exampleServer (exampleState ''abc'' 0 [])) ''c1''
            (APPLY_OP (insertOp ''op1'' ''alice'' 0 0 ''x''))))) ''doc1''
     = Some \<lparr>content = ''xabc'', version = 1,
             pendingOps = [insertOp ''op1'' ''alice'' 0 0 ''x''],
             lastSaveTime = 0, opsSinceLastSave = 1\<rparr>"
  by (simp add: engine_defs manager_defs server_defs example_defs)

text \<open>
  C8, as the code has it. Every frame that \<open>handleCursorUpdate\<close> sends goes to a
  session other than the sender and is \<open>CURSOR_UPDATE\<close> with the position alone: the
  message has no \<open>userId\<close> field.
\<close>

theorem cursor_update_broadcast_has_position_only:
  assumes "(recipient, msg) \<in> set (fst (snd (handleCursorUpdate cm clientId pos)))"
  shows "msg = CURSOR_UPDATE pos \<and> messageUserId msg = None \<and> recipient \<noteq> clientId"
  using assms
  by (auto simp: handleCursorUpdate_def Let_def split: option.splits
           dest: broadcastToDocument_message broadcastToDocument_not_excluded)

theorem cursor_update_broadcast_has_position_only_witness:
  "(''c2'', CURSOR_UPDATE 7)
     \<in> set (fst (snd (handleCursorUpdate (exampleServer (exampleState ''abc'' 0 [])) ''c1'' 7)))
   \<and> messageUserId (CURSOR_UPDATE 7) = None \<and> ''c2'' \<noteq> ''c1''"
proof -
  have mem: "(''c2'', CURSOR_UPDATE 7)
     \<in> set (fst (snd (handleCursorUpdate (exampleServer (exampleState ''abc'' 0 [])) ''c1'' 7)))"
    by (simp add: server_defs example_defs Let_def)
  from mem cursor_update_broadcast_has_position_only [OF mem] show ?thesis by simp
qed

text \<open>
  The cursor of \<open>alice\<close> reaches the peer as a position without her \<open>userId\<close>.
\<close>

theorem cursor_update_without_userId_counterexample:
  "fst (snd (handleCursorUpdate (exampleServer (exampleState ''abc'' 0 [])) ''c1'' 3))
     = [(''c2'', CURSOR_UPDATE 3)]
   \<and> messageUserId (CURSOR_UPDATE 3) \<noteq> Some ''alice''
   \<and> map_option clientUserId (map_of (clients (exampleServer (exampleState ''abc'' 0 []))) ''c1'')
     = Some ''alice''"
  by (simp add: server_defs example_defs Let_def)

end
